theory Spec2Isabelle
  imports Main
begin

section \<open>The iterator pattern of the JS-basics snippets\<close>

text \<open>
  The snippet file on the iterator pattern builds two iterators by closure: \<open>myObj\<close>, over
  an array literal, and the object returned by \<open>getDOMIterator\<close>, over the element nodes
  below a DOM element. Both expose the same four methods \<open>hasNext\<close>, \<open>getNext\<close>,
  \<open>getCurrent\<close> and \<open>rewind\<close>, which read and write the closure variables \<open>i\<close> and
  \<open>data\<close>.
\<close>

subsection \<open>JavaScript values\<close>

text \<open>
  The values the snippets handle: \<open>null\<close>, \<open>undefined\<close>, booleans, the integer
  numerals of the array literal, strings, and objects. The parameter \<open>'o\<close> is what stands
  for an object: in an array it is the object's reference, and for the argument of
  \<open>getDOMIterator\<close> it is the node together with the subtree below it.
\<close>

datatype 'o jsval = JNull | JUndefined | JBool bool | JNum int | JStr string | JObj 'o

text \<open>
  A DOM node: its identity \<open>ref\<close> (what a variable holding the node holds), its
  \<open>nodeType\<close> (1 for an element node) and its \<open>children\<close>, in document order.
  \<open>children\<close> is read on element nodes only, which all have it; \<open>Array.from\<close> copies
  it into an array before the walk.
\<close>

datatype 'a node = Node (ref: 'a) (nodeType: int) (children: "'a node list")

text \<open>Reading a property of \<open>null\<close> or \<open>undefined\<close> throws a TypeError.\<close>

datatype error = TypeError

subsection \<open>The state the methods work on\<close>

text \<open>
  \<open>i\<close> and \<open>data\<close> are the variables declared with \<open>let\<close> in the enclosing function.
  \<open>elem\<close> is assigned in \<open>getNext\<close> without any declaration, and the file is not in
  strict mode, so it is a property of the global object: \<open>None\<close> as long as no
  \<open>getNext\<close> has assigned it.
\<close>

record 'a state =
  i :: int
  data :: "'a jsval list"
  elem :: "'a jsval option"

text \<open>
  \<open>data[k]\<close>: the element at an index inside the array, \<open>undefined\<close> at any other
  index. No index makes the read throw.
\<close>

definition arr_get :: "'a jsval list \<Rightarrow> int \<Rightarrow> 'a jsval" where
  "arr_get xs k = (if 0 \<le> k \<and> k < int (length xs) then xs ! nat k else JUndefined)"

subsection \<open>The four methods\<close>

text \<open>
  Each method takes the state and returns its result with the state it leaves. The
  methods are called on the iterator object, so \<open>this.hasNext\<close> is its \<open>hasNext\<close>.
\<close>

definition hasNext :: "'a state \<Rightarrow> bool \<times> 'a state" where
  "hasNext s = (i s < int (length (data s)), s)"

text \<open>
  \<open>return elem\<close> reads the global that the method has just assigned, so the value
  returned is the one read from \<open>data\<close>.
\<close>

definition getNext :: "'a state \<Rightarrow> 'a jsval \<times> 'a state" where
  "getNext s =
     (let (b, s1) = hasNext s in
      if \<not> b then (JNull, s1)
      else
        let e = arr_get (data s1) (i s1);
            s2 = s1\<lparr>elem := Some e\<rparr>;
            s3 = s2\<lparr>i := i s2 + 1\<rparr>
        in (e, s3))"

definition getCurrent :: "'a state \<Rightarrow> 'a jsval \<times> 'a state" where
  "getCurrent s =
     (let (b, s1) = hasNext s in
      if \<not> b then (JNull, s1)
      else (arr_get (data s1) (i s1), s1))"

text \<open>A method without a \<open>return\<close> gives \<open>undefined\<close>.\<close>

definition rewind :: "'a state \<Rightarrow> 'a jsval \<times> 'a state" where
  "rewind s = (JUndefined, s\<lparr>i := 0\<rparr>)"

subsection \<open>The two constructions\<close>

text \<open>
  The function whose call gives \<open>myObj\<close>, with the array literal as a parameter;
  \<open>g\<close> is the global \<open>elem\<close> as the construction finds it, which it leaves alone.
\<close>

definition myObj_with :: "'a jsval list \<Rightarrow> 'a jsval option \<Rightarrow> 'a state" where
  "myObj_with S g = \<lparr>i = 0, data = S, elem = g\<rparr>"

definition myObj :: "'a jsval option \<Rightarrow> 'a state" where
  "myObj g = myObj_with [JNum 1, JNum 2, JNum 3, JNum 4, JNum 5] g"

text \<open>
  \<open>DOMToArray\<close> on a node: an element node is pushed onto \<open>data\<close>, then its children are
  walked in order, each walk continuing with the array the previous one left; any other
  node leaves \<open>data\<close> as it is. What is pushed is the node itself, that is its reference.
  The members of \<open>children\<close> are nodes, so only the first call, on the argument of
  \<open>getDOMIterator\<close>, can meet \<open>null\<close> or \<open>undefined\<close>.
\<close>

fun DOMToArray :: "'a node \<Rightarrow> 'a jsval list \<Rightarrow> 'a jsval list" where
  "DOMToArray (Node r t cs) d =
     (if t = 1 then fold (\<lambda>child d'. DOMToArray child d') cs (d @ [JObj r]) else d)"

text \<open>
  \<open>getDOMIterator\<close>: \<open>i\<close> and \<open>data\<close> are initialised, \<open>DOMToArray(element)\<close>
  fills \<open>data\<close>, and the iterator is returned. The first thing \<open>DOMToArray\<close> does is
  read \<open>element.nodeType\<close>: on \<open>null\<close> and \<open>undefined\<close> that throws, on a boolean,
  number or string it gives \<open>undefined\<close>, which is not 1.
\<close>

definition getDOMIterator :: "'a node jsval \<Rightarrow> 'a jsval option \<Rightarrow> error + 'a state" where
  "getDOMIterator element g =
     (case element of
        JNull \<Rightarrow> Inl TypeError
      | JUndefined \<Rightarrow> Inl TypeError
      | JObj n \<Rightarrow> Inr \<lparr>i = 0, data = DOMToArray n [], elem = g\<rparr>
      | _ \<Rightarrow> Inr \<lparr>i = 0, data = [], elem = g\<rparr>)"

subsection \<open>Sequences of method calls\<close>

datatype op = HasNext | GetNext | GetCurrent | Rewind

fun call :: "op \<Rightarrow> 'a state \<Rightarrow> 'a jsval \<times> 'a state" where
  "call HasNext s = (let (b, s') = hasNext s in (JBool b, s'))"
| "call GetNext s = getNext s"
| "call GetCurrent s = getCurrent s"
| "call Rewind s = rewind s"

text \<open>The calls of a list, one after the other: the results in order and the last state.\<close>

fun run :: "op list \<Rightarrow> 'a state \<Rightarrow> 'a jsval list \<times> 'a state" where
  "run [] s = ([], s)"
| "run (c # cs) s =
     (let (r, s1) = call c s;
          (rs, s2) = run cs s1
      in (r # rs, s2))"

subsection \<open>The test on the node type\<close>

text \<open>
  \<open>element.nodeType === 1\<close>, the test \<open>DOMToArray\<close> makes before anything else, on
  any value: it throws on \<open>null\<close> and \<open>undefined\<close>, compares the node type of a node,
  and is false on a boolean, number or string, whose \<open>nodeType\<close> is \<open>undefined\<close>.
\<close>

definition isElementNode :: "'a node jsval \<Rightarrow> error + bool" where
  "isElementNode element =
     (case element of
        JNull \<Rightarrow> Inl TypeError
      | JUndefined \<Rightarrow> Inl TypeError
      | JObj n \<Rightarrow> Inr (nodeType n = 1)
      | _ \<Rightarrow> Inr False)"

text \<open>
  Building the iterator over a value and then making the calls of a list on it; an
  exception thrown on the way ends the whole run.
\<close>

definition iterate :: "'a node jsval \<Rightarrow> 'a jsval option \<Rightarrow> op list \<Rightarrow> error + 'a jsval list" where
  "iterate element g cs =
     (case getDOMIterator element g of
        Inl e \<Rightarrow> Inl e
      | Inr it \<Rightarrow> Inr (fst (run cs it)))"

text \<open>What each method returns once the cursor is at the end of \<open>data\<close>.\<close>

fun exhausted_result :: "op \<Rightarrow> 'a jsval" where
  "exhausted_result HasNext = JBool False"
| "exhausted_result GetNext = JNull"
| "exhausted_result GetCurrent = JNull"
| "exhausted_result Rewind = JUndefined"

subsection \<open>The traversal order as the specification words it\<close>

text \<open>
  Pre-order, depth first: a node that passes the test comes first, then what the walk of
  each child gives, in the order of the children; a node that fails the test is left out
  together with everything below it.
\<close>

fun preorder_spec :: "'a node \<Rightarrow> 'a node list" where
  "preorder_spec (Node r t cs) =
     (if t = 1 then Node r t cs # concat (map preorder_spec cs) else [])"

subsection \<open>The cursor's range\<close>

definition cursor_in_range :: "'a state \<Rightarrow> bool" where
  "cursor_in_range s = (0 \<le> i s \<and> i s \<le> int (length (data s)))"

subsection \<open>Calls interleaved with changes of the tree\<close>

text \<open>
  Between two method calls the program may change the tree the iterator was built from,
  or drop it. The tree is one component of what the program holds and the iterator's
  state another; the methods are given the second only, as their bodies name \<open>i\<close>,
  \<open>data\<close> and \<open>elem\<close> and nothing else.
\<close>

datatype 'a event = Call op | Mutate "'a node jsval \<Rightarrow> 'a node jsval"

fun run_world ::
  "'a event list \<Rightarrow> 'a node jsval \<times> 'a state \<Rightarrow> 'a jsval list \<times> ('a node jsval \<times> 'a state)" where
  "run_world [] w = ([], w)"
| "run_world (Call c # es) (t, s) =
     (let (r, s1) = call c s;
          (rs, w) = run_world es (t, s1)
      in (r # rs, w))"
| "run_world (Mutate f # es) (t, s) = run_world es (f t, s)"

fun calls :: "'a event list \<Rightarrow> op list" where
  "calls [] = []"
| "calls (Call c # es) = c # calls es"
| "calls (Mutate f # es) = calls es"

section \<open>Properties of the methods\<close>

lemma hasNext_state: "snd (hasNext s) = s"
  by (simp add: hasNext_def)

lemma hasNext_value: "fst (hasNext s) = (i s < int (length (data s)))"
  by (simp add: hasNext_def)

lemma getNext_exhausted: "\<not> i s < int (length (data s)) \<Longrightarrow> getNext s = (JNull, s)"
  by (simp add: getNext_def hasNext_def)

lemma getNext_more:
  "i s < int (length (data s)) \<Longrightarrow>
   getNext s = (arr_get (data s) (i s), s\<lparr>elem := Some (arr_get (data s) (i s)), i := i s + 1\<rparr>)"
  by (simp add: getNext_def hasNext_def Let_def)

text \<open>
  What \<open>k\<close> calls of \<open>getNext\<close> return from a cursor that is not negative: the next
  \<open>k\<close> elements of \<open>data\<close>, and \<open>null\<close> for every call after the last element.
\<close>

lemma getNext_times_results:
  "0 \<le> i s \<Longrightarrow>
   fst (run (replicate k GetNext) s) =
     take k (drop (nat (i s)) (data s)) @
     replicate (k - (length (data s) - nat (i s))) JNull"
proof (induction k arbitrary: s)
  case 0
  show ?case by simp
next
  case (Suc k)
  show ?case
  proof (cases "i s < int (length (data s))")
    case True
    let ?s' = "s\<lparr>elem := Some (arr_get (data s) (i s)), i := i s + 1\<rparr>"
    from True Suc.prems have lt: "nat (i s) < length (data s)" by simp
    have next_ix: "nat (i ?s') = Suc (nat (i s))" using Suc.prems by simp
    have ih: "fst (run (replicate k GetNext) ?s') =
        take k (drop (Suc (nat (i s))) (data s)) @
        replicate (k - (length (data s) - Suc (nat (i s)))) JNull"
      using Suc.IH [of ?s'] Suc.prems next_ix by simp
    have hd: "arr_get (data s) (i s) = data s ! nat (i s)"
      using True Suc.prems by (simp add: arr_get_def)
    have split: "drop (nat (i s)) (data s) = data s ! nat (i s) # drop (Suc (nat (i s))) (data s)"
      using lt by (simp add: Cons_nth_drop_Suc)
    have cnt: "Suc k - (length (data s) - nat (i s)) = k - (length (data s) - Suc (nat (i s)))"
      using lt by simp
    show ?thesis
      using True ih hd by (simp add: getNext_more split_beta split cnt)
  next
    case False
    from False Suc.prems have ge: "length (data s) \<le> nat (i s)" by simp
    have ih: "fst (run (replicate k GetNext) s) = replicate k JNull"
      using Suc.IH [of s] Suc.prems ge by simp
    show ?thesis
      using False ge ih by (simp add: getNext_exhausted split_beta)
  qed
qed

lemma getNext_times_fresh:
  "i s = 0 \<Longrightarrow>
   fst (run (replicate k GetNext) s) = take k (data s) @ replicate (k - length (data s)) JNull"
  using getNext_times_results [of s k] by simp

subsection \<open>What a call reads and what it changes\<close>

lemma getCurrent_state: "snd (getCurrent s) = s"
  by (simp add: getCurrent_def hasNext_def)

lemma getCurrent_exhausted: "\<not> i s < int (length (data s)) \<Longrightarrow> fst (getCurrent s) = JNull"
  by (simp add: getCurrent_def hasNext_def)

lemma getCurrent_more:
  "i s < int (length (data s)) \<Longrightarrow> fst (getCurrent s) = arr_get (data s) (i s)"
  by (simp add: getCurrent_def hasNext_def)

lemma call_data: "data (snd (call c s)) = data s"
  by (cases c) (simp_all add: hasNext_def getNext_def getCurrent_def rewind_def Let_def)

lemma run_data: "data (snd (run cs s)) = data s"
  by (induction cs arbitrary: s) (simp_all add: split_beta call_data)

lemma call_in_range: "cursor_in_range s \<Longrightarrow> cursor_in_range (snd (call c s))"
  by (cases c)
     (auto simp add: cursor_in_range_def hasNext_def getNext_def getCurrent_def rewind_def Let_def)

lemma run_in_range: "cursor_in_range s \<Longrightarrow> cursor_in_range (snd (run cs s))"
  by (induction cs arbitrary: s) (simp_all add: split_beta call_in_range)

text \<open>The global \<open>elem\<close> has no part in what a call returns or where it leaves the cursor.\<close>

lemma call_cong:
  assumes "i s = i t" and "data s = data t"
  shows "fst (call c s) = fst (call c t) \<and> i (snd (call c s)) = i (snd (call c t))"
  using assms
  by (cases c) (simp_all add: hasNext_def getNext_def getCurrent_def rewind_def Let_def)

lemma run_cong:
  "i s = i t \<Longrightarrow> data s = data t \<Longrightarrow> fst (run cs s) = fst (run cs t)"
proof (induction cs arbitrary: s t)
  case Nil
  show ?case by simp
next
  case (Cons c cs)
  have step: "fst (call c s) = fst (call c t)" "i (snd (call c s)) = i (snd (call c t))"
    using call_cong [OF Cons.prems] by simp_all
  have same_data: "data (snd (call c s)) = data (snd (call c t))"
    using Cons.prems by (simp add: call_data)
  have "fst (run cs (snd (call c s))) = fst (run cs (snd (call c t)))"
    using Cons.IH [OF step(2) same_data] .
  with step(1) show ?case by (simp add: split_beta)
qed

lemma run_world_calls: "fst (run_world es (t, s)) = fst (run (calls es) s)"
proof (induction es arbitrary: t s)
  case Nil
  show ?case by simp
next
  case (Cons e es)
  then show ?case by (cases e) (simp_all add: split_beta)
qed

lemma run_empty_data:
  "i s = 0 \<Longrightarrow> data s = [] \<Longrightarrow> fst (run cs s) = map exhausted_result cs"
proof (induction cs arbitrary: s)
  case Nil
  show ?case by simp
next
  case (Cons c cs)
  have here: "fst (call c s) = exhausted_result c"
    using Cons.prems
    by (cases c) (simp_all add: hasNext_def getNext_def getCurrent_def rewind_def)
  have after: "i (snd (call c s)) = 0 \<and> data (snd (call c s)) = []"
    using Cons.prems
    by (cases c) (simp_all add: hasNext_def getNext_def getCurrent_def rewind_def)
  have "fst (run cs (snd (call c s))) = map exhausted_result cs"
    using Cons.IH [of "snd (call c s)"] after by simp
  with here show ?case by (simp add: split_beta)
qed

lemma length_run: "length (fst (run cs s)) = length cs"
  by (induction cs arbitrary: s) (simp_all add: split_beta)

lemma run_rewinds: "snd (run (replicate (Suc m) Rewind) s) = s\<lparr>i := 0\<rparr>"
  by (induction m arbitrary: s) (simp_all add: rewind_def split_beta)

lemma run_getCurrents: "run (replicate k GetCurrent) s = (replicate k (fst (getCurrent s)), s)"
proof (induction k)
  case 0
  show ?case by simp
next
  case (Suc k)
  then show ?case by (simp add: split_beta getCurrent_state)
qed

subsection \<open>The walk of the tree\<close>

lemma fold_appends:
  "(\<And>c d. c \<in> set cs \<Longrightarrow> f c d = d @ g c) \<Longrightarrow> fold f cs d = d @ concat (map g cs)"
  by (induction cs arbitrary: d) simp_all

lemma DOMToArray_preorder:
  "DOMToArray n d = d @ map (\<lambda>m. JObj (ref m)) (preorder_spec n)"
proof (induction n d rule: DOMToArray.induct)
  case (1 r t cs d)
  show ?case
  proof (cases "t = 1")
    case True
    have "fold (\<lambda>child d'. DOMToArray child d') cs (d @ [JObj r]) =
        (d @ [JObj r]) @ concat (map (\<lambda>c. map (\<lambda>m. JObj (ref m)) (preorder_spec c)) cs)"
      by (rule fold_appends) (use "1.IH" True in simp)
    with True show ?thesis by (simp add: map_concat comp_def)
  next
    case False
    then show ?thesis by simp
  qed
qed

lemma DOMToArray_no_null: "JNull \<notin> set d \<Longrightarrow> JNull \<notin> set (DOMToArray n d)"
  by (auto simp add: DOMToArray_preorder)

lemma getDOMIterator_cursor: "getDOMIterator element g = Inr it \<Longrightarrow> i it = 0"
  by (auto simp add: getDOMIterator_def split: jsval.splits)

lemma DOMToArray_non_element: "nodeType n \<noteq> 1 \<Longrightarrow> DOMToArray n d = d"
  by (cases n) simp

lemma getDOMIterator_non_element:
  assumes "isElementNode root = Inr False"
  shows "getDOMIterator root g = Inr \<lparr>i = 0, data = [], elem = g\<rparr>"
proof (cases root)
  case (JObj n)
  with assms have "nodeType n \<noteq> 1" by (simp add: isElementNode_def)
  with JObj show ?thesis by (simp add: getDOMIterator_def DOMToArray_non_element)
qed (use assms in \<open>simp_all add: isElementNode_def getDOMIterator_def\<close>)

subsection \<open>Arrays without \<open>null\<close>\<close>

lemma arr_get_not_null:
  assumes "JNull \<notin> set xs"
  shows "arr_get xs k \<noteq> JNull"
proof (cases "0 \<le> k \<and> k < int (length xs)")
  case True
  then have "nat k < length xs" by (simp add: nat_less_iff)
  then have "xs ! nat k \<in> set xs" by (rule nth_mem)
  with assms have "xs ! nat k \<noteq> JNull" by metis
  with True show ?thesis by (simp add: arr_get_def)
next
  case False
  then show ?thesis by (auto simp add: arr_get_def)
qed

lemma getDOMIterator_no_null:
  assumes "getDOMIterator root g = Inr it"
  shows "JNull \<notin> set (data it)"
proof (cases root)
  case (JObj n)
  have "JNull \<notin> set (DOMToArray n [])"
    by (rule DOMToArray_no_null) simp
  with assms JObj show ?thesis by (auto simp add: getDOMIterator_def)
qed (use assms in \<open>auto simp add: getDOMIterator_def\<close>)

subsection \<open>The runs the snippets print\<close>

text \<open>
  The calls the file makes on \<open>myObj\<close> and on the iterator over the \<open>ul\<close> element of
  its HTML, with the results its comments give.
\<close>

lemma myObj_demo:
  "fst (run [GetNext, GetNext, GetNext, GetNext, GetNext, GetNext,
             Rewind, GetCurrent, GetCurrent, GetNext, GetNext] (myObj None :: unit state)) =
     [JNum 1, JNum 2, JNum 3, JNum 4, JNum 5, JNull,
      JUndefined, JNum 1, JNum 1, JNum 1, JNum 2]"
  by (simp add: myObj_def myObj_with_def getNext_def getCurrent_def rewind_def hasNext_def
      arr_get_def Let_def)

lemma listIterator_demo:
  "iterate
     (JObj (Node ''ul'' 1 [Node ''li1'' 1 [Node ''a1'' 1 []], Node ''li2'' 1 [Node ''a2'' 1 []]]))
     None [GetNext, GetNext, GetNext, GetNext, GetNext, GetNext] =
   Inr [JObj ''ul'', JObj ''li1'', JObj ''a1'', JObj ''li2'', JObj ''a2'', JNull]"
  by (simp add: iterate_def getDOMIterator_def getNext_def hasNext_def arr_get_def Let_def)

section \<open>The claims\<close>

text \<open>
  C1. For every array \<open>S\<close> the iterator is built over, of length \<open>n\<close>, the first
  \<open>n\<close> calls of \<open>getNext\<close> return the elements of \<open>S\<close> in order, the \<open>k\<close>-th call
  returning \<open>S[k-1]\<close>, and call \<open>n+1\<close> returns \<open>null\<close>. Over the empty array
  \<open>hasNext\<close> is false at once, and \<open>getNext\<close> and \<open>getCurrent\<close> return \<open>null\<close>.
\<close>

theorem C1_getNext_in_order:
  "fst (run (replicate (length S + 1) GetNext) (myObj_with S g)) = S @ [JNull]
   \<and> (\<forall>k<length S. fst (run (replicate (length S + 1) GetNext) (myObj_with S g)) ! k = S ! k)
   \<and> fst (run (replicate (length S + 1) GetNext) (myObj_with S g)) ! length S = JNull
   \<and> fst (hasNext (myObj_with [] g)) = False
   \<and> getNext (myObj_with [] g) = (JNull, myObj_with [] g)
   \<and> getCurrent (myObj_with [] g) = (JNull, myObj_with [] g)"
proof -
  have all: "fst (run (replicate (length S + 1) GetNext) (myObj_with S g)) = S @ [JNull]"
    using getNext_times_fresh [of "myObj_with S g" "length S + 1"]
    by (simp add: myObj_with_def)
  have nth: "\<forall>k<length S. (S @ [JNull]) ! k = S ! k"
    by (simp add: nth_append)
  have empty: "fst (hasNext (myObj_with [] g)) = False
      \<and> getNext (myObj_with [] g) = (JNull, myObj_with [] g)
      \<and> getCurrent (myObj_with [] g) = (JNull, myObj_with [] g)"
    by (simp add: hasNext_def getNext_def getCurrent_def myObj_with_def)
  show ?thesis
    unfolding all using nth empty by (simp only: nth_append_length simp_thms)
qed

theorem C1_getNext_in_order_witness:
  "fst (run (replicate 6 GetNext) (myObj None :: unit state))
     = [JNum 1, JNum 2, JNum 3, JNum 4, JNum 5, JNull]
   \<and> (2::nat) < length [JNum 1, JNum 2, JNum 3, JNum 4, JNum 5 :: unit jsval]
   \<and> fst (run (replicate 6 GetNext) (myObj None :: unit state)) ! 2 = JNum 3
   \<and> fst (hasNext (myObj_with [] None :: unit state)) = False"
proof -
  let ?S = "[JNum 1, JNum 2, JNum 3, JNum 4, JNum 5 :: unit jsval]"
  have len: "length ?S + 1 = 6"
    by simp
  note c1 = C1_getNext_in_order [of ?S "None :: unit jsval option", unfolded len]
  have all: "fst (run (replicate 6 GetNext) (myObj None :: unit state)) = ?S @ [JNull]"
    using c1 unfolding myObj_def by (rule conjunct1)
  have each: "\<forall>k<length ?S. fst (run (replicate 6 GetNext) (myObj None :: unit state)) ! k = ?S ! k"
    using c1 unfolding myObj_def by blast
  have inside: "(2::nat) < length ?S"
    by simp
  have third: "fst (run (replicate 6 GetNext) (myObj None :: unit state)) ! 2 = ?S ! 2"
    using each inside by blast
  have empty: "fst (hasNext (myObj_with [] None :: unit state)) = False"
    using c1 by blast
  show ?thesis
    using all inside third empty by simp
qed

text \<open>
  C2. For every tree whose root passes the test on the node type, \<open>getDOMIterator\<close>
  returns with \<open>data\<close> already holding the nodes of the pre-order, depth-first walk
  (a node before its children, the children from left to right, a node that fails the
  test left out with its subtree) and the cursor at 0, so that the calls of \<open>getNext\<close>
  return them in that order. Over a root with two children that are leaves, all three
  element nodes, the calls return the root, the first child and the second child.
\<close>

theorem C2_preorder_materialised:
  "nodeType n = 1 \<Longrightarrow>
     getDOMIterator (JObj n) g =
       Inr \<lparr>i = 0, data = map (\<lambda>m. JObj (ref m)) (preorder_spec n), elem = g\<rparr>
   \<and> preorder_spec n = n # concat (map preorder_spec (children n))
   \<and> iterate (JObj n) g (replicate (length (preorder_spec n)) GetNext) =
       Inr (map (\<lambda>m. JObj (ref m)) (preorder_spec n))
   \<and> iterate (JObj (Node r 1 [Node a 1 [], Node b 1 []])) g (replicate 3 GetNext) =
       Inr [JObj r, JObj a, JObj b]"
proof -
  assume elt: "nodeType n = 1"
  let ?items = "map (\<lambda>m. JObj (ref m)) (preorder_spec n)"
  let ?it = "\<lparr>i = 0, data = ?items, elem = g\<rparr>"
  have built: "getDOMIterator (JObj n) g = Inr ?it"
    by (simp add: getDOMIterator_def DOMToArray_preorder)
  have first: "preorder_spec n = n # concat (map preorder_spec (children n))"
    using elt by (cases n) simp
  have "fst (run (replicate (length (preorder_spec n)) GetNext) ?it) = ?items"
    using getNext_times_fresh [of ?it "length (preorder_spec n)"] by simp
  then have drained: "iterate (JObj n) g (replicate (length (preorder_spec n)) GetNext) = Inr ?items"
    by (simp add: iterate_def built)
  let ?t = "Node r 1 [Node a 1 [], Node b 1 []]"
  let ?it3 = "\<lparr>i = 0, data = [JObj r, JObj a, JObj b], elem = g\<rparr>"
  have built3: "getDOMIterator (JObj ?t) g = Inr ?it3"
    by (simp add: getDOMIterator_def)
  have "fst (run (replicate 3 GetNext) ?it3) = [JObj r, JObj a, JObj b]"
    using getNext_times_fresh [of ?it3 3] by simp
  then have three: "iterate (JObj ?t) g (replicate 3 GetNext) = Inr [JObj r, JObj a, JObj b]"
    by (simp only: iterate_def built3 sum.case)
  from built first drained three show ?thesis by blast
qed

theorem C2_preorder_materialised_witness:
  "nodeType (Node ''ul'' 1 [Node ''li1'' 1 [Node ''a1'' 1 []], Node ''li2'' 1 [Node ''a2'' 1 []]]) = 1
   \<and> getDOMIterator
        (JObj (Node ''ul'' 1 [Node ''li1'' 1 [Node ''a1'' 1 []], Node ''li2'' 1 [Node ''a2'' 1 []]]))
        None =
      Inr \<lparr>i = 0,
           data = [JObj ''ul'', JObj ''li1'', JObj ''a1'', JObj ''li2'', JObj ''a2''],
           elem = None\<rparr>"
proof -
  have elt: "nodeType (Node ''ul'' 1 [Node ''li1'' 1 [Node ''a1'' 1 []], Node ''li2'' 1 [Node ''a2'' 1 []]]) = 1"
    by simp
  show ?thesis
    using elt C2_preorder_materialised [OF elt, of None] by simp
qed

text \<open>
  C3, as the specification states it: for every root that does not pass the test on the
  node type, \<open>getDOMIterator\<close> returns without raising, with \<open>data\<close> empty. It fails
  on \<open>null\<close>, which does not pass the test: reading \<open>nodeType\<close> of it throws.
\<close>

theorem C3_null_root_counterexample:
  "isElementNode (JNull :: string node jsval) \<noteq> Inr True
   \<and> getDOMIterator (JNull :: string node jsval) None = Inl TypeError"
  by (simp add: isElementNode_def getDOMIterator_def)

text \<open>
  C3, amended. For every root on which the test on the node type gives false (a node of
  another type, a boolean, a number or a string), \<open>getDOMIterator\<close> returns an iterator
  with \<open>data\<close> empty, on which every \<open>hasNext\<close> is false and every \<open>getNext\<close> and
  \<open>getCurrent\<close> returns \<open>null\<close>. For every root on which the test does not throw,
  no sequence of method calls raises: each call returns a result.
\<close>

theorem C3_non_element_root:
  "(isElementNode root = Inr False \<longrightarrow>
      getDOMIterator root g = Inr \<lparr>i = 0, data = [], elem = g\<rparr>
      \<and> iterate root g cs = Inr (map exhausted_result cs))
   \<and> (isElementNode root \<noteq> Inl TypeError \<longrightarrow>
      (\<exists>rs. iterate root g cs = Inr rs \<and> length rs = length cs))"
proof (intro conjI impI)
  assume no: "isElementNode root = Inr False"
  then show built: "getDOMIterator root g = Inr \<lparr>i = 0, data = [], elem = g\<rparr>"
    by (rule getDOMIterator_non_element)
  have "fst (run cs \<lparr>i = 0, data = [], elem = g\<rparr>) = map exhausted_result cs"
    by (rule run_empty_data) simp_all
  then show "iterate root g cs = Inr (map exhausted_result cs)"
    by (simp add: iterate_def built)
next
  assume "isElementNode root \<noteq> Inl TypeError"
  then obtain it where "getDOMIterator root g = Inr it"
    by (cases root) (simp_all add: isElementNode_def getDOMIterator_def)
  then show "\<exists>rs. iterate root g cs = Inr rs \<and> length rs = length cs"
    by (simp add: iterate_def length_run)
qed

theorem C3_non_element_root_witness:
  "isElementNode (JObj (Node ''fragment'' 11 [Node ''p'' 1 []])) = Inr False
   \<and> isElementNode (JObj (Node ''fragment'' 11 [Node ''p'' 1 []])) \<noteq> Inl TypeError
   \<and> getDOMIterator (JObj (Node ''fragment'' 11 [Node ''p'' 1 []])) None =
       Inr \<lparr>i = 0, data = [], elem = None\<rparr>
   \<and> iterate (JObj (Node ''fragment'' 11 [Node ''p'' 1 []])) None [HasNext, GetNext, GetCurrent] =
       Inr [JBool False, JNull, JNull]"
proof -
  have no: "isElementNode (JObj (Node ''fragment'' 11 [Node ''p'' 1 []])) = Inr False"
    by (simp add: isElementNode_def)
  show ?thesis
    using no C3_non_element_root
      [of "JObj (Node ''fragment'' 11 [Node ''p'' 1 []])" None "[HasNext, GetNext, GetCurrent]"]
    by simp
qed

text \<open>
  C4. The cursor satisfies \<open>0 \<le> i \<le> data.length\<close> when either construction returns,
  and every method keeps it so, hence so does every sequence of calls on either iterator.
  \<open>hasNext\<close> and \<open>getCurrent\<close> leave the cursor where it is: a call that moves it is a
  \<open>getNext\<close> or a \<open>rewind\<close>.
\<close>

theorem C4_cursor_in_range:
  "cursor_in_range (myObj_with S g)
   \<and> (getDOMIterator root g = Inr it \<longrightarrow> cursor_in_range it)
   \<and> (cursor_in_range s \<longrightarrow> cursor_in_range (snd (call c s)) \<and> cursor_in_range (snd (run cs s)))
   \<and> cursor_in_range (snd (run cs (myObj_with S g)))
   \<and> (getDOMIterator root g = Inr it \<longrightarrow> cursor_in_range (snd (run cs it)))
   \<and> i (snd (hasNext s)) = i s
   \<and> i (snd (getCurrent s)) = i s
   \<and> (i (snd (call c s)) \<noteq> i s \<longrightarrow> c = GetNext \<or> c = Rewind)"
proof -
  have fresh: "cursor_in_range (myObj_with S g)"
    by (simp add: cursor_in_range_def myObj_with_def)
  have dom: "cursor_in_range it" if "getDOMIterator root g = Inr it"
    using getDOMIterator_cursor [OF that] by (simp add: cursor_in_range_def)
  have moved: "c = GetNext \<or> c = Rewind" if "i (snd (call c s)) \<noteq> i s"
    using that by (cases c) (simp_all add: hasNext_state getCurrent_state split_beta)
  show ?thesis
    using fresh dom moved
    by (simp add: call_in_range run_in_range hasNext_state getCurrent_state)
qed

theorem C4_cursor_in_range_witness:
  "getDOMIterator (JObj (Node ''ul'' 1 [Node ''li'' 1 []])) None =
     Inr \<lparr>i = 0, data = [JObj ''ul'', JObj ''li''], elem = None\<rparr>
   \<and> cursor_in_range \<lparr>i = 1, data = [JObj ''ul'', JObj ''li''], elem = None\<rparr>
   \<and> i (snd (call GetNext \<lparr>i = 1, data = [JObj ''ul'', JObj ''li''], elem = None\<rparr>)) \<noteq> 1
   \<and> cursor_in_range (snd (call GetNext \<lparr>i = 1, data = [JObj ''ul'', JObj ''li''], elem = None\<rparr>))
   \<and> cursor_in_range
        (snd (run [GetNext, GetNext, GetNext, Rewind, GetCurrent]
               \<lparr>i = 0, data = [JObj ''ul'', JObj ''li''], elem = None\<rparr>))"
proof -
  let ?it = "\<lparr>i = 0, data = [JObj ''ul'', JObj ''li''], elem = None\<rparr>"
  let ?s = "\<lparr>i = 1, data = [JObj ''ul'', JObj ''li''], elem = None\<rparr>"
  have built: "getDOMIterator (JObj (Node ''ul'' 1 [Node ''li'' 1 []])) None = Inr ?it"
    by (simp add: getDOMIterator_def)
  have inside: "cursor_in_range ?s"
    by (simp add: cursor_in_range_def)
  have moves: "i (snd (call GetNext ?s)) \<noteq> 1"
    by (simp add: getNext_def hasNext_def Let_def)
  show ?thesis
    using built inside moves
      C4_cursor_in_range [of "[]" None "JObj (Node ''ul'' 1 [Node ''li'' 1 []])" ?it ?s GetNext
        "[GetNext, GetNext, GetNext, Rewind, GetCurrent]"]
    by (simp del: run.simps call.simps)
qed

text \<open>
  C5. In every state in which \<open>hasNext\<close> is false, \<open>getNext\<close> returns \<open>null\<close> and
  leaves the state as it was: the cursor, \<open>data\<close> and the global \<open>elem\<close>.
\<close>

theorem C5_getNext_when_exhausted:
  "\<not> fst (hasNext s) \<Longrightarrow> getNext s = (JNull, s)"
  by (simp add: getNext_exhausted hasNext_value)

theorem C5_getNext_when_exhausted_witness:
  "\<not> fst (hasNext (\<lparr>i = 5, data = [JNum 1, JNum 2, JNum 3, JNum 4, JNum 5], elem = Some (JNum 5)\<rparr> :: unit state))
   \<and> getNext (\<lparr>i = 5, data = [JNum 1, JNum 2, JNum 3, JNum 4, JNum 5], elem = Some (JNum 5)\<rparr> :: unit state)
       = (JNull, \<lparr>i = 5, data = [JNum 1, JNum 2, JNum 3, JNum 4, JNum 5], elem = Some (JNum 5)\<rparr>)"
proof -
  let ?s = "\<lparr>i = 5, data = [JNum 1, JNum 2, JNum 3, JNum 4, JNum 5], elem = Some (JNum 5)\<rparr> :: unit state"
  have ended: "\<not> fst (hasNext ?s)"
    by (simp add: hasNext_def)
  show ?thesis
    using ended C5_getNext_when_exhausted [OF ended] by simp
qed

text \<open>
  C6. \<open>rewind\<close> sets the cursor to 0 in every state and changes nothing else, and a
  second \<open>rewind\<close> changes nothing more. After any calls on an iterator, one or more
  \<open>rewind\<close>s followed by calls of \<open>getNext\<close> return what the same calls of
  \<open>getNext\<close> return on the iterator as it was built; over an array \<open>S\<close> that is the
  elements of \<open>S\<close> and then \<open>null\<close>.
\<close>

theorem C6_rewind:
  "snd (rewind (s :: 'a state)) = s\<lparr>i := 0\<rparr>
   \<and> i (snd (rewind s)) = 0
   \<and> rewind (snd (rewind s)) = rewind s
   \<and> (i (s0 :: 'a state) = 0 \<longrightarrow>
        fst (run (replicate k GetNext) (snd (run (replicate (Suc m) Rewind) (snd (run cs s0)))))
          = fst (run (replicate k GetNext) s0))
   \<and> fst (run (replicate (length S + 1) GetNext)
           (snd (run (replicate (Suc m) Rewind) (snd (run cs (myObj_with S g :: 'a state))))))
       = S @ [JNull]"
proof -
  have again: "fst (run (replicate k' GetNext) (snd (run (replicate (Suc m) Rewind) (snd (run cs t)))))
      = fst (run (replicate k' GetNext) t)" if "i t = 0" for t :: "'a state" and k'
  proof (rule run_cong)
    show "i (snd (run (replicate (Suc m) Rewind) (snd (run cs t)))) = i t"
      using that by (simp only: run_rewinds) simp
    show "data (snd (run (replicate (Suc m) Rewind) (snd (run cs t)))) = data t"
      by (simp only: run_data)
  qed
  have first: "fst (run (replicate (length S + 1) GetNext) (myObj_with S g)) = S @ [JNull]"
    using getNext_times_fresh [of "myObj_with S g" "length S + 1"]
    by (simp add: myObj_with_def)
  have literal: "fst (run (replicate (length S + 1) GetNext)
           (snd (run (replicate (Suc m) Rewind) (snd (run cs (myObj_with S g))))))
       = S @ [JNull]"
    using again [of "myObj_with S g" "length S + 1"] first by (simp add: myObj_with_def)
  show ?thesis
    using again [of s0 k] literal by (simp add: rewind_def del: replicate.simps)
qed

theorem C6_rewind_witness:
  "i (myObj None :: unit state) = 0
   \<and> fst (run (replicate 6 GetNext)
           (snd (run (replicate (Suc 1) Rewind)
                  (snd (run [GetNext, GetNext, GetNext] (myObj None :: unit state))))))
       = fst (run (replicate 6 GetNext) (myObj None :: unit state))"
proof -
  have fresh: "i (myObj None :: unit state) = 0"
    by (simp add: myObj_def myObj_with_def)
  show ?thesis
    using fresh
      C6_rewind [of "myObj None :: unit state" "myObj None :: unit state" 6 1
        "[GetNext, GetNext, GetNext]" "[]" None]
    by blast
qed

text \<open>
  C7. In every state \<open>getCurrent\<close> leaves the cursor, \<open>data\<close> and the global \<open>elem\<close>
  as they were, and any number of calls of \<open>getCurrent\<close> in a row all return the same
  result.
\<close>

theorem C7_getCurrent_frame:
  "snd (getCurrent s) = s
   \<and> i (snd (getCurrent s)) = i s
   \<and> data (snd (getCurrent s)) = data s
   \<and> run (replicate k GetCurrent) s = (replicate k (fst (getCurrent s)), s)"
  by (simp add: getCurrent_state run_getCurrents)

theorem C7_getCurrent_frame_witness:
  "run (replicate 2 GetCurrent) (myObj None :: unit state) = ([JNum 1, JNum 1], myObj None)"
proof -
  have cur: "fst (getCurrent (myObj None :: unit state)) = JNum 1"
    by (simp add: getCurrent_def hasNext_def arr_get_def myObj_def myObj_with_def)
  have two: "replicate 2 (JNum 1 :: unit jsval) = [JNum 1, JNum 1]"
    by (simp add: numeral_2_eq_2)
  show ?thesis
    using C7_getCurrent_frame [of "myObj None :: unit state" 2]
    by (simp only: cur two)
qed

text \<open>
  C8. Over an array of length \<open>n\<close> with the cursor at \<open>c\<close>, \<open>hasNext\<close> returns true
  exactly when \<open>c < n\<close>: true at the positions \<open>0\<close> to \<open>n - 1\<close>, false at position
  \<open>n\<close>. The call leaves the state as it was.
\<close>

theorem C8_hasNext:
  "fst (hasNext \<lparr>i = int c, data = xs, elem = g\<rparr>) = (c < length xs)
   \<and> (\<forall>c'<length xs. fst (hasNext \<lparr>i = int c', data = xs, elem = g\<rparr>))
   \<and> \<not> fst (hasNext \<lparr>i = int (length xs), data = xs, elem = g\<rparr>)
   \<and> fst (hasNext s) = (i s < int (length (data s)))
   \<and> snd (hasNext s) = s
   \<and> call HasNext s = (JBool (i s < int (length (data s))), s)"
  by (simp add: hasNext_def)

theorem C8_hasNext_witness:
  "(0::nat) < length [JStr ''a'', JStr ''b'' :: unit jsval]
   \<and> fst (hasNext \<lparr>i = 0, data = [JStr ''a'', JStr ''b''], elem = None :: unit jsval option\<rparr>)
   \<and> fst (hasNext \<lparr>i = 1, data = [JStr ''a'', JStr ''b''], elem = None :: unit jsval option\<rparr>)
   \<and> \<not> fst (hasNext \<lparr>i = 2, data = [JStr ''a'', JStr ''b''], elem = None :: unit jsval option\<rparr>)"
proof -
  let ?xs = "[JStr ''a'', JStr ''b'' :: unit jsval]"
  have all: "\<forall>c'<length ?xs. fst (hasNext \<lparr>i = int c', data = ?xs, elem = None\<rparr>)"
    and last: "\<not> fst (hasNext \<lparr>i = int (length ?xs), data = ?xs, elem = None\<rparr>)"
    using C8_hasNext [of 0 ?xs None] by blast+
  have "fst (hasNext \<lparr>i = int 0, data = ?xs, elem = None\<rparr>)"
    using all by (rule allE [of _ 0]) simp
  moreover have "fst (hasNext \<lparr>i = int 1, data = ?xs, elem = None\<rparr>)"
    using all by (rule allE [of _ 1]) simp
  ultimately show ?thesis
    using last by simp
qed

text \<open>
  C9. What the methods return depends on \<open>data\<close> and the cursor alone. Two iterators
  that \<open>getDOMIterator\<close> has returned with the same \<open>data\<close>, from whatever roots, give
  the same results for the same calls, whatever is done to either tree between the calls.
\<close>

theorem C9_results_from_items_and_cursor:
  "(i s = i t \<and> data s = data t \<longrightarrow> fst (run cs s) = fst (run cs t))
   \<and> (getDOMIterator r1 g1 = Inr it1 \<and> getDOMIterator r2 g2 = Inr it2
        \<and> data it1 = data it2 \<and> calls es1 = calls es2 \<longrightarrow>
      fst (run_world es1 (r1, it1)) = fst (run_world es2 (r2, it2)))"
proof (intro conjI impI)
  assume "i s = i t \<and> data s = data t"
  then have "i s = i t" and "data s = data t"
    by simp_all
  then show "fst (run cs s) = fst (run cs t)"
    by (rule run_cong)
next
  assume runs: "getDOMIterator r1 g1 = Inr it1 \<and> getDOMIterator r2 g2 = Inr it2
        \<and> data it1 = data it2 \<and> calls es1 = calls es2"
  then have b1: "getDOMIterator r1 g1 = Inr it1" and b2: "getDOMIterator r2 g2 = Inr it2"
    and items: "data it1 = data it2" and same: "calls es1 = calls es2"
    by blast+
  have cursors: "i it1 = i it2"
    using getDOMIterator_cursor [OF b1] getDOMIterator_cursor [OF b2] by simp
  have "fst (run (calls es1) it1) = fst (run (calls es1) it2)"
    using cursors items by (rule run_cong)
  then have "fst (run (calls es1) it1) = fst (run (calls es2) it2)"
    by (simp only: same)
  then show "fst (run_world es1 (r1, it1)) = fst (run_world es2 (r2, it2))"
    by (simp only: run_world_calls)
qed

theorem C9_results_from_items_and_cursor_witness:
  "getDOMIterator (JObj (Node ''ul'' 1 [Node ''li'' 1 [], Node ''note'' 8 []])) None =
     Inr \<lparr>i = 0, data = [JObj ''ul'', JObj ''li''], elem = None\<rparr>
   \<and> getDOMIterator (JObj (Node ''ul'' 1 [Node ''li'' 1 []])) (Some (JNum 5)) =
     Inr \<lparr>i = 0, data = [JObj ''ul'', JObj ''li''], elem = Some (JNum 5)\<rparr>
   \<and> calls [Call GetNext, Mutate (\<lambda>t. JNull), Call GetCurrent] =
     calls [Mutate (\<lambda>t. JObj (Node ''div'' 1 [])), Call GetNext, Call GetCurrent]
   \<and> fst (run [GetNext, GetCurrent] \<lparr>i = 0, data = [JObj ''ul'', JObj ''li''], elem = None\<rparr>) =
     fst (run [GetNext, GetCurrent]
           \<lparr>i = 0, data = [JObj ''ul'', JObj ''li''], elem = Some (JNum 5)\<rparr>)
   \<and> fst (run_world [Call GetNext, Mutate (\<lambda>t. JNull), Call GetCurrent]
           (JObj (Node ''ul'' 1 [Node ''li'' 1 [], Node ''note'' 8 []]),
            \<lparr>i = 0, data = [JObj ''ul'', JObj ''li''], elem = None\<rparr>)) =
     fst (run_world [Mutate (\<lambda>t. JObj (Node ''div'' 1 [])), Call GetNext, Call GetCurrent]
           (JObj (Node ''ul'' 1 [Node ''li'' 1 []]),
            \<lparr>i = 0, data = [JObj ''ul'', JObj ''li''], elem = Some (JNum 5)\<rparr>))"
proof -
  let ?r1 = "JObj (Node ''ul'' 1 [Node ''li'' 1 [], Node ''note'' 8 []])"
  let ?r2 = "JObj (Node ''ul'' 1 [Node ''li'' 1 []])"
  let ?it1 = "\<lparr>i = 0, data = [JObj ''ul'', JObj ''li''], elem = None\<rparr>"
  let ?it2 = "\<lparr>i = 0, data = [JObj ''ul'', JObj ''li''], elem = Some (JNum 5)\<rparr>"
  let ?es1 = "[Call GetNext, Mutate (\<lambda>t. JNull), Call GetCurrent]"
  let ?es2 = "[Mutate (\<lambda>t. JObj (Node ''div'' 1 [])), Call GetNext, Call GetCurrent]"
  have b1: "getDOMIterator ?r1 None = Inr ?it1"
    by (simp add: getDOMIterator_def)
  have b2: "getDOMIterator ?r2 (Some (JNum 5)) = Inr ?it2"
    by (simp add: getDOMIterator_def)
  have same_items: "data ?it1 = data ?it2"
    by simp
  have same_calls: "calls ?es1 = calls ?es2"
    by simp
  have same_cursor: "i ?it1 = i ?it2"
    by simp
  note c9 = C9_results_from_items_and_cursor
      [of ?it1 ?it2 "[GetNext, GetCurrent]" ?r1 None ?it1 ?r2 "Some (JNum 5)" ?it2 ?es1 ?es2]
  have same_run: "fst (run [GetNext, GetCurrent] ?it1) = fst (run [GetNext, GetCurrent] ?it2)"
    by (rule c9 [THEN conjunct1, THEN mp]) (intro conjI same_cursor same_items)
  have same_results: "fst (run_world ?es1 (?r1, ?it1)) = fst (run_world ?es2 (?r2, ?it2))"
    by (rule c9 [THEN conjunct2, THEN mp]) (intro conjI b1 b2 same_items same_calls)
  show ?thesis
    by (intro conjI b1 b2 same_calls same_run same_results)
qed

text \<open>
  C10. When \<open>data\<close> holds no \<open>null\<close>, \<open>getNext\<close> returns \<open>null\<close> exactly when
  \<open>hasNext\<close> is false at the call, and so does \<open>getCurrent\<close>. The array that
  \<open>getDOMIterator\<close> fills holds nodes only, so its iterator is always in that case.
\<close>

theorem C10_null_is_exhaustion:
  "(JNull \<notin> set (data s) \<longrightarrow>
      (fst (getNext s) = JNull \<longleftrightarrow> \<not> fst (hasNext s))
      \<and> (fst (getCurrent s) = JNull \<longleftrightarrow> \<not> fst (hasNext s)))
   \<and> (getDOMIterator root g = Inr it \<longrightarrow> JNull \<notin> set (data (snd (run cs it))))"
proof (intro conjI impI)
  assume clean: "JNull \<notin> set (data s)"
  show "fst (getNext s) = JNull \<longleftrightarrow> \<not> fst (hasNext s)"
  proof (cases "i s < int (length (data s))")
    case True
    then show ?thesis
      using arr_get_not_null [OF clean, of "i s"] by (simp add: getNext_more hasNext_value)
  next
    case False
    then show ?thesis by (simp add: getNext_exhausted hasNext_value)
  qed
  show "fst (getCurrent s) = JNull \<longleftrightarrow> \<not> fst (hasNext s)"
  proof (cases "i s < int (length (data s))")
    case True
    then show ?thesis
      using arr_get_not_null [OF clean, of "i s"] by (simp add: getCurrent_more hasNext_value)
  next
    case False
    then show ?thesis by (simp add: getCurrent_exhausted hasNext_value)
  qed
next
  assume "getDOMIterator root g = Inr it"
  then have "JNull \<notin> set (data it)"
    by (rule getDOMIterator_no_null)
  then show "JNull \<notin> set (data (snd (run cs it)))"
    by (simp add: run_data)
qed

theorem C10_null_is_exhaustion_witness:
  "JNull \<notin> set (data (myObj None :: unit state))
   \<and> fst (hasNext (myObj None :: unit state))
   \<and> fst (getNext (myObj None :: unit state)) \<noteq> JNull
   \<and> fst (getCurrent (myObj None :: unit state)) \<noteq> JNull
   \<and> getDOMIterator (JObj (Node ''ul'' 1 [Node ''li'' 1 []])) None =
       Inr \<lparr>i = 0, data = [JObj ''ul'', JObj ''li''], elem = None\<rparr>
   \<and> JNull \<notin> set (data (snd (run [GetNext, Rewind]
                             \<lparr>i = 0, data = [JObj ''ul'', JObj ''li''], elem = None\<rparr>)))"
proof -
  let ?root = "JObj (Node ''ul'' 1 [Node ''li'' 1 []])"
  let ?it = "\<lparr>i = 0, data = [JObj ''ul'', JObj ''li''], elem = None\<rparr>"
  have clean: "JNull \<notin> set (data (myObj None :: unit state))"
    by (simp add: myObj_def myObj_with_def)
  have more: "fst (hasNext (myObj None :: unit state))"
    by (simp add: hasNext_def myObj_def myObj_with_def)
  have both: "(fst (getNext (myObj None :: unit state)) = JNull \<longleftrightarrow> \<not> fst (hasNext (myObj None :: unit state)))
      \<and> (fst (getCurrent (myObj None :: unit state)) = JNull \<longleftrightarrow> \<not> fst (hasNext (myObj None :: unit state)))"
    by (rule C10_null_is_exhaustion
          [of "myObj None :: unit state" JNull None "myObj None :: unit state" "[]",
           THEN conjunct1, THEN mp])
       (rule clean)
  have built: "getDOMIterator ?root None = Inr ?it"
    by (simp add: getDOMIterator_def)
  have kept: "JNull \<notin> set (data (snd (run [GetNext, Rewind] ?it)))"
    by (rule C10_null_is_exhaustion
          [of "myObj None :: string state" ?root None ?it "[GetNext, Rewind]",
           THEN conjunct2, THEN mp])
       (rule built)
  have first: "JNull \<notin> set (data (myObj None :: unit state))
      \<and> fst (hasNext (myObj None :: unit state))
      \<and> fst (getNext (myObj None :: unit state)) \<noteq> JNull
      \<and> fst (getCurrent (myObj None :: unit state)) \<noteq> JNull"
    using clean more both by simp
  show ?thesis
    by (intro conjI built kept first [THEN conjunct1] first [THEN conjunct2, THEN conjunct1]
        first [THEN conjunct2, THEN conjunct2, THEN conjunct1]
        first [THEN conjunct2, THEN conjunct2, THEN conjunct2])
qed

end
